theory Spec2Isabelle
  imports Main
begin

section \<open>Data dependence (DataDependence.h, DataDependence.cpp)\<close>

subsection \<open>The host IR and the two oracles, as the tracker sees them\<close>

text \<open>
  Pointers into the host IR are opaque identities. A basic block pointer and a memory
  location are addresses; an \<open>Instruction *\<close> is the instruction it points to, which
  carries its own address, so that two instructions with the same content stay two keys.
  The IR is never mutated while the analysis runs.
\<close>

type_synonym BasicBlock = nat

type_synonym Location = nat

text \<open>
  \<open>dyn_cast<LoadInst>\<close>, \<open>dyn_cast<StoreInst>\<close> and \<open>dyn_cast<VAArgInst>\<close> ask for the
  class of the instruction; \<open>isUnordered()\<close> exists on loads and stores only.
\<close>

datatype InstKind =
    LoadInst bool
  | StoreInst bool
  | VAArgInst
  | OtherInst

record Instruction =
  addr :: nat
  kind :: InstKind
  getParent :: BasicBlock
  mayReadFromMemory :: bool
  mayWriteToMemory :: bool

text \<open>
  \<open>MemDepResult\<close> belongs to the memory dependence oracle. The tracker reads it through
  five predicates and \<open>getInst()\<close> (a null pointer is \<open>None\<close>), and nothing else.
\<close>

record MemDepResult =
  isClobber :: bool
  isDef :: bool
  isNonFuncLocal :: bool
  isUnknown :: bool
  isNonLocal :: bool
  getInst :: "Instruction option"

record NonLocalDepResult =
  getBB :: BasicBlock
  getResult :: MemDepResult
  getAddress :: nat

text \<open>
  \<open>getDependency(inst)\<close> and
  \<open>getNonLocalPointerDependency(Loc, isLoad, BB, Result)\<close>, the second returning the
  vector it fills.
\<close>

record MemoryDependenceAnalysis =
  getDependency :: "Instruction \<Rightarrow> MemDepResult"
  getNonLocalPointerDependency :: "Location \<Rightarrow> bool \<Rightarrow> BasicBlock \<Rightarrow> NonLocalDepResult list"

record AliasAnalysis =
  getLocation :: "Instruction \<Rightarrow> Location"

subsection \<open>DepType, DepInfo and the two maps\<close>

datatype DepType = Clobber | Def | NonFuncLocal | NonLocal | Unknown | Invalid

record DepInfo =
  DepInst :: "Instruction option"
  Type :: DepType

text \<open>
  The members \<open>DepInst_\<close>, \<open>Type_\<close>, \<open>LocalDeps_\<close> and \<open>NonLocalDeps_\<close> lose their
  trailing underscore, which a name cannot end with here. The default constructor
  \<open>DepInfo()\<close>:
\<close>

definition DepInfo_default :: DepInfo where
  "DepInfo_default = \<lparr>DepInst = None, Type = Invalid\<rparr>"

definition valid :: "DepInfo \<Rightarrow> bool" where
  "valid d = (if Type d = Invalid then False else True)"

text \<open>
  The object state: the two maps of the class. \<open>errs\<close> is the standard error stream the
  class writes its warnings to, one entry per line written.
\<close>

record DataDependence =
  LocalDeps :: "Instruction \<rightharpoonup> DepInfo"
  NonLocalDeps :: "Instruction \<rightharpoonup> NonLocalDepResult list"
  errs :: "string list"

definition DataDependence_init :: DataDependence where
  "DataDependence_init = \<lparr>LocalDeps = Map.empty, NonLocalDeps = Map.empty, errs = []\<rparr>"

text \<open>
  The fatal signals: a failed \<open>assert\<close> (assertions are compiled in) and
  \<open>llvm_unreachable\<close>, each with the text the source gives it, and the dereference of
  a null pointer.
\<close>

datatype fatal =
    AssertionFailed string
  | Unreachable string
  | NullDereference

subsection \<open>getDepInfo\<close>

definition getDepInfo :: "MemDepResult \<Rightarrow> fatal + DepInfo" where
  "getDepInfo dep =
     (if isClobber dep then Inr \<lparr>DepInst = getInst dep, Type = Clobber\<rparr>
      else if isDef dep then Inr \<lparr>DepInst = getInst dep, Type = Def\<rparr>
      else if isNonFuncLocal dep then Inr \<lparr>DepInst = getInst dep, Type = NonFuncLocal\<rparr>
      else if isUnknown dep then Inr \<lparr>DepInst = getInst dep, Type = Unknown\<rparr>
      else if isNonLocal dep then Inr \<lparr>DepInst = getInst dep, Type = NonLocal\<rparr>
      else Inl (Unreachable ''unknown dependence type''))"

subsection \<open>processDepResult\<close>

text \<open>
  The closing loop of the non-local branch:
  \<open>for (I in NLDep) NonLocalDeps_[inst].push_back(*I)\<close>. \<open>operator[]\<close> creates the key
  with an empty vector the first time it is reached, that is inside the loop body.
\<close>

fun push_back_all ::
  "Instruction \<Rightarrow> NonLocalDepResult list \<Rightarrow> (Instruction \<rightharpoonup> NonLocalDepResult list)
     \<Rightarrow> (Instruction \<rightharpoonup> NonLocalDepResult list)" where
  "push_back_all inst [] m = m"
| "push_back_all inst (I # rest) m =
     push_back_all inst rest
       (m(inst \<mapsto> (case m inst of None \<Rightarrow> [] | Some v \<Rightarrow> v) @ [I]))"

definition processDepResult ::
  "Instruction \<Rightarrow> MemoryDependenceAnalysis \<Rightarrow> AliasAnalysis \<Rightarrow> DataDependence
     \<Rightarrow> fatal option \<times> DataDependence" where
  "processDepResult inst MDA AA dd =
     (let Res = getDependency MDA inst in
      if \<not> isNonLocal Res then
        (case getDepInfo Res of
           Inl f \<Rightarrow> (Some f, dd)
         | Inr newInfo \<Rightarrow>
             if \<not> valid newInfo then (Some (AssertionFailed ''newInfo.valid()''), dd)
             else (None, dd\<lparr>LocalDeps := (LocalDeps dd)(inst \<mapsto> newInfo)\<rparr>))
      else
        (case getDepInfo Res of
           Inl f \<Rightarrow> (Some f, dd)
         | Inr newInfo \<Rightarrow>
             if Type newInfo \<noteq> NonLocal
             then (Some (AssertionFailed ''newInfo.Type_ == NonLocal''), dd)
             else if \<not> isNonLocal Res
             then (Some (AssertionFailed ''Res.isNonLocal()''), dd)
             else
               (case kind inst of
                  LoadInst unordered \<Rightarrow>
                    if \<not> unordered
                    then (Some (AssertionFailed ''atomic/volatile loads not handled''),
                          dd\<lparr>errs := errs dd @ [''[WARNING] atomic/volatile loads are not handled'']\<rparr>)
                    else
                      (let Loc = getLocation AA inst;
                           NLDep = getNonLocalPointerDependency MDA Loc True (getParent inst)
                       in (None, dd\<lparr>NonLocalDeps := push_back_all inst NLDep (NonLocalDeps dd)\<rparr>))
                | StoreInst unordered \<Rightarrow>
                    if \<not> unordered
                    then (Some (AssertionFailed ''atomic/volatile stores not handled''),
                          dd\<lparr>errs := errs dd @ [''[WARNING] atomic/volatile stores are not handled'']\<rparr>)
                    else
                      (let Loc = getLocation AA inst;
                           NLDep = getNonLocalPointerDependency MDA Loc False (getParent inst)
                       in (None, dd\<lparr>NonLocalDeps := push_back_all inst NLDep (NonLocalDeps dd)\<rparr>))
                | VAArgInst \<Rightarrow>
                    (let Loc = getLocation AA inst;
                         NLDep = getNonLocalPointerDependency MDA Loc False (getParent inst)
                     in (None, dd\<lparr>NonLocalDeps := push_back_all inst NLDep (NonLocalDeps dd)\<rparr>))
                | OtherInst \<Rightarrow> (Some (Unreachable ''Unknown memory instruction!''), dd))))"

subsection \<open>getDataDependencies\<close>

text \<open>
  The function is its instructions in \<open>inst_iterator\<close> order. A fatal signal ends the
  run where it is raised.
\<close>

fun getDataDependencies ::
  "Instruction list \<Rightarrow> MemoryDependenceAnalysis \<Rightarrow> AliasAnalysis \<Rightarrow> DataDependence
     \<Rightarrow> fatal option \<times> DataDependence" where
  "getDataDependencies [] MDA AA dd = (None, dd)"
| "getDataDependencies (inst # rest) MDA AA dd =
     (if \<not> mayReadFromMemory inst \<and> \<not> mayWriteToMemory inst
      then getDataDependencies rest MDA AA dd
      else (case processDepResult inst MDA AA dd of
              (Some f, dd') \<Rightarrow> (Some f, dd')
            | (None, dd') \<Rightarrow> getDataDependencies rest MDA AA dd'))"

section \<open>Control dependence (ControlDependence.cpp)\<close>

subsection \<open>The control-flow graph and the post-dominator tree, as the builder sees them\<close>

text \<open>
  The function is its basic blocks in iteration order, each with the successors that
  \<open>succ_begin\<close> to \<open>succ_end\<close> enumerate. A \<open>BasicBlock *\<close> is an address; the null
  pointer is the address \<open>0\<close>.
\<close>

type_synonym CFG = "(BasicBlock \<times> BasicBlock list) list"

definition NULL :: BasicBlock where
  "NULL = 0"

text \<open>
  A \<open>DomTreeNode\<close> of the post-dominator tree gives its block and its immediate
  post-dominator, the parent node, which is null at the root. The tree is read-only and
  every chain of parents ends at the root, so a node is given together with its chain of
  parents; a \<open>DomTreeNode *\<close> is \<open>None\<close> when null. Two pointers are equal when they point
  to the same node of the tree, that is to the same block with the same parents.
\<close>

datatype DomTreeNode = DomTreeNode (getBlock: BasicBlock) (getIDom: "DomTreeNode option")

text \<open>
  The three queries the builder puts to the \<open>PostDominatorTree\<close>:
  \<open>properlyDominates(B, A)\<close>, \<open>findNearestCommonDominator(A, B)\<close> (null when there is
  none) and \<open>getNode(A)\<close>. They belong to the host compiler; the builder is modelled for
  any answers they give.
\<close>

record PostDominatorTree =
  properlyDominates :: "BasicBlock \<Rightarrow> BasicBlock \<Rightarrow> bool"
  findNearestCommonDominator :: "BasicBlock \<Rightarrow> BasicBlock \<Rightarrow> BasicBlock"
  getNode :: "BasicBlock \<Rightarrow> DomTreeNode option"

text \<open>\<open>head\<close> is the head of the arrow: the edge is \<open>tail \<rightarrow> head\<close>.\<close>

record CFGEdge =
  tail :: BasicBlock
  head :: BasicBlock

definition CFGEdge_default :: CFGEdge where
  "CFGEdge_default = \<lparr>tail = NULL, head = NULL\<rparr>"

text \<open>The member \<open>controlDeps_\<close>: a \<open>std::map\<close> from a block to a \<open>std::set\<close> of blocks.\<close>

type_synonym ControlDeps = "BasicBlock \<rightharpoonup> BasicBlock set"

subsection \<open>getNonPDomEdges\<close>

text \<open>The inner loop over the successors of \<open>A\<close>, and the outer loop over the blocks.\<close>

fun succ_loop ::
  "PostDominatorTree \<Rightarrow> BasicBlock \<Rightarrow> BasicBlock list \<Rightarrow> CFGEdge list \<Rightarrow> CFGEdge list" where
  "succ_loop PDT A [] S = S"
| "succ_loop PDT A (B # Si) S =
     succ_loop PDT A Si
       (if \<not> properlyDominates PDT B A then S @ [\<lparr>tail = A, head = B\<rparr>] else S)"

fun block_loop :: "PostDominatorTree \<Rightarrow> CFG \<Rightarrow> CFGEdge list \<Rightarrow> CFGEdge list" where
  "block_loop PDT [] S = S"
| "block_loop PDT ((A, succs) # BBi) S = block_loop PDT BBi (succ_loop PDT A succs S)"

definition getNonPDomEdges :: "CFG \<Rightarrow> PostDominatorTree \<Rightarrow> CFGEdge list" where
  "getNonPDomEdges F PDT = block_loop PDT F []"

subsection \<open>updateControlDependencies\<close>

text \<open>
  The loop \<open>while (curNode != parentA)\<close>. Its body dereferences \<open>curNode\<close>; when the walk
  runs off the root without having met \<open>parentA\<close>, that is a null pointer, and the run ends
  there with \<open>NullDereference\<close>.
\<close>

function walk_up ::
  "DomTreeNode option \<Rightarrow> DomTreeNode option \<Rightarrow> BasicBlock set \<Rightarrow> fatal + BasicBlock set" where
  "walk_up curNode parentA depSet =
     (if curNode \<noteq> parentA then
        (case curNode of
           None \<Rightarrow> Inl NullDereference
         | Some n \<Rightarrow> walk_up (getIDom n) parentA (insert (getBlock n) depSet))
      else Inr depSet)"
  by pat_completeness auto
termination
proof (relation "measure (\<lambda>(curNode, parentA, depSet). size_option size curNode)")
  show "wf (measure (\<lambda>(curNode, parentA, depSet). size_option size curNode))"
    by simp
next
  fix curNode parentA :: "DomTreeNode option" and depSet :: "BasicBlock set" and n
  assume "curNode = Some n"
  then show "((getIDom n, parentA, insert (getBlock n) depSet), curNode, parentA, depSet)
               \<in> measure (\<lambda>(curNode, parentA, depSet). size_option size curNode)"
    by (cases n) simp
qed

text \<open>
  The body of the loop over \<open>S\<close>, for one edge. \<open>controlDeps_[A]\<close> yields the set stored
  for \<open>A\<close>, a new empty one when \<open>A\<close> was no key yet, and the walk inserts into that set.
  The lines written to \<open>errs()\<close> are not part of the map and are left out; the assertion
  that closes the body compares the set with itself and cannot fail.
\<close>

definition update_edge :: "PostDominatorTree \<Rightarrow> CFGEdge \<Rightarrow> ControlDeps \<Rightarrow> fatal + ControlDeps" where
  "update_edge PDT curEdge controlDeps =
     (let A = tail curEdge;
          B = head curEdge;
          L = findNearestCommonDominator PDT A B
      in if L = NULL then Inr controlDeps
         else
           (case getNode PDT A of
              None \<Rightarrow> Inl NullDereference
            | Some domNodeA \<Rightarrow>
                (let parentA = getIDom domNodeA;
                     domNodeB = getNode PDT B;
                     curNode = domNodeB;
                     depSet = (case controlDeps A of None \<Rightarrow> {} | Some s \<Rightarrow> s)
                 in (case walk_up curNode parentA depSet of
                       Inl f \<Rightarrow> Inl f
                     | Inr depSet' \<Rightarrow> Inr (controlDeps(A \<mapsto> depSet'))))))"

fun updateControlDependencies ::
  "CFGEdge list \<Rightarrow> PostDominatorTree \<Rightarrow> ControlDeps \<Rightarrow> fatal + ControlDeps" where
  "updateControlDependencies [] PDT controlDeps = Inr controlDeps"
| "updateControlDependencies (curEdge # S) PDT controlDeps =
     (case update_edge PDT curEdge controlDeps of
        Inl f \<Rightarrow> Inl f
      | Inr controlDeps' \<Rightarrow> updateControlDependencies S PDT controlDeps')"

subsection \<open>getControlDependencies\<close>

definition getControlDependencies :: "CFG \<Rightarrow> PostDominatorTree \<Rightarrow> ControlDeps \<Rightarrow> fatal + ControlDeps" where
  "getControlDependencies F PDT controlDeps =
     (let S = getNonPDomEdges F PDT in updateControlDependencies S PDT controlDeps)"

section \<open>Notions the properties are stated with\<close>

subsection \<open>Data dependence\<close>

text \<open>
  The oracle promises that exactly one of the five predicates holds of a result. The
  tracker is modelled for any result; where a property rests on the promise, it says so
  with \<open>exactly_one\<close>.
\<close>

definition exactly_one :: "MemDepResult \<Rightarrow> bool" where
  "exactly_one dep =
     (length (filter (\<lambda>b. b)
        [isClobber dep, isDef dep, isNonFuncLocal dep, isUnknown dep, isNonLocal dep]) = 1)"

text \<open>
  The entries the oracle returns for the non-local query of an instruction, in the order
  it returns them: the query \<open>processDepResult\<close> issues for a load, a store or a
  variadic-argument access.
\<close>

definition NLDep_of ::
  "Instruction \<Rightarrow> MemoryDependenceAnalysis \<Rightarrow> AliasAnalysis \<Rightarrow> NonLocalDepResult list" where
  "NLDep_of inst MDA AA =
     getNonLocalPointerDependency MDA (getLocation AA inst)
       (case kind inst of LoadInst u \<Rightarrow> True | StoreInst u \<Rightarrow> False | VAArgInst \<Rightarrow> False
        | OtherInst \<Rightarrow> False)
       (getParent inst)"


subsection \<open>Example inputs\<close>

text \<open>
  Example inputs: an unordered load, an unordered store, a variadic-argument access and an
  atomic load of one block, two oracle results, one non-local entry and an alias analysis.
\<close>

definition ex_load :: Instruction where
  "ex_load = \<lparr>addr = 1, kind = LoadInst True, getParent = 10,
               mayReadFromMemory = True, mayWriteToMemory = False\<rparr>"

definition ex_store :: Instruction where
  "ex_store = \<lparr>addr = 2, kind = StoreInst True, getParent = 10,
                mayReadFromMemory = False, mayWriteToMemory = True\<rparr>"

definition ex_vaarg :: Instruction where
  "ex_vaarg = \<lparr>addr = 3, kind = VAArgInst, getParent = 10,
                mayReadFromMemory = True, mayWriteToMemory = True\<rparr>"

definition ex_atomic_load :: Instruction where
  "ex_atomic_load = \<lparr>addr = 4, kind = LoadInst False, getParent = 10,
                      mayReadFromMemory = True, mayWriteToMemory = False\<rparr>"

definition res_NonLocal :: MemDepResult where
  "res_NonLocal = \<lparr>isClobber = False, isDef = False, isNonFuncLocal = False,
                    isUnknown = False, isNonLocal = True, getInst = None\<rparr>"

definition res_Def :: MemDepResult where
  "res_Def = \<lparr>isClobber = False, isDef = True, isNonFuncLocal = False,
               isUnknown = False, isNonLocal = False, getInst = Some ex_store\<rparr>"

definition ex_entry :: NonLocalDepResult where
  "ex_entry = \<lparr>getBB = 9, getResult = res_Def, getAddress = 77\<rparr>"

definition ex_AA :: AliasAnalysis where
  "ex_AA = \<lparr>getLocation = (\<lambda>i. 100 + addr i)\<rparr>"

text \<open>An oracle that finds every access non-local and has entries for read-oriented queries only.\<close>

definition MDA_reads_only :: MemoryDependenceAnalysis where
  "MDA_reads_only =
     \<lparr>getDependency = (\<lambda>i. res_NonLocal),
      getNonLocalPointerDependency = (\<lambda>Loc isLoad BB. if isLoad then [ex_entry] else [])\<rparr>"

text \<open>An oracle that finds a definition for the load, and every other access non-local with one entry.\<close>

definition MDA_mixed :: MemoryDependenceAnalysis where
  "MDA_mixed =
     \<lparr>getDependency = (\<lambda>i. if i = ex_load then res_Def else res_NonLocal),
      getNonLocalPointerDependency = (\<lambda>Loc isLoad BB. [ex_entry])\<rparr>"

lemmas ex_defs = ex_load_def ex_store_def ex_vaarg_def ex_atomic_load_def res_NonLocal_def
  res_Def_def ex_AA_def MDA_reads_only_def MDA_mixed_def DataDependence_init_def

subsection \<open>Control dependence\<close>

text \<open>
  The chain of immediate post-dominators that starts at a node: the node, its parent, and
  so on up to the root. For a null pointer the chain is empty.
\<close>

fun ancestors :: "DomTreeNode option \<Rightarrow> DomTreeNode list" where
  "ancestors None = []"
| "ancestors (Some (DomTreeNode b idom)) = DomTreeNode b idom # ancestors idom"

text \<open>
  The nodes of the chain of \<open>curNode\<close> that come before \<open>parentA\<close>, and whether \<open>parentA\<close>
  is met at all: a null \<open>parentA\<close> is met when the chain is exhausted, another one when it
  lies on the chain.
\<close>

definition visited :: "DomTreeNode option \<Rightarrow> DomTreeNode option \<Rightarrow> DomTreeNode list" where
  "visited curNode parentA = takeWhile (\<lambda>n. Some n \<noteq> parentA) (ancestors curNode)"

definition reaches :: "DomTreeNode option \<Rightarrow> DomTreeNode option \<Rightarrow> bool" where
  "reaches curNode parentA =
     (case parentA of None \<Rightarrow> True | Some p \<Rightarrow> p \<in> set (ancestors curNode))"

text \<open>
  The dependent-set of a block: the set stored for it, empty when the block is no key.
\<close>

definition depSet_of :: "ControlDeps \<Rightarrow> BasicBlock \<Rightarrow> BasicBlock set" where
  "depSet_of controlDeps A = (case controlDeps A of None \<Rightarrow> {} | Some s \<Rightarrow> s)"

text \<open>
  What one edge contributes, whatever the map holds: nothing when the edge has no nearest
  common post-dominator, else the blocks of the nodes visited, or the fatal signal.
  A map absorbs an edge when it already holds that contribution; a map grows to another
  when every key stays a key and its set does not shrink.
\<close>

definition edge_effect :: "PostDominatorTree \<Rightarrow> CFGEdge \<Rightarrow> fatal + BasicBlock set option" where
  "edge_effect PDT e =
     (if findNearestCommonDominator PDT (tail e) (head e) = NULL then Inr None
      else
        (case getNode PDT (tail e) of
           None \<Rightarrow> Inl NullDereference
         | Some domNodeA \<Rightarrow>
             if reaches (getNode PDT (head e)) (getIDom domNodeA)
             then Inr (Some (getBlock ` set (visited (getNode PDT (head e)) (getIDom domNodeA))))
             else Inl NullDereference))"

definition absorbs :: "ControlDeps \<Rightarrow> PostDominatorTree \<Rightarrow> CFGEdge \<Rightarrow> bool" where
  "absorbs controlDeps PDT e =
     (edge_effect PDT e = Inr None \<or>
      (\<exists>V s. edge_effect PDT e = Inr (Some V) \<and> controlDeps (tail e) = Some s \<and> V \<subseteq> s))"

definition grows_to :: "ControlDeps \<Rightarrow> ControlDeps \<Rightarrow> bool" where
  "grows_to controlDeps controlDeps' =
     (\<forall>A s. controlDeps A = Some s \<longrightarrow> (\<exists>s'. controlDeps' A = Some s' \<and> s \<subseteq> s'))"

text \<open>
  Two facts about the post-dominator tree of a function, which the builder receives and
  does not check. The root has no parent and is a block without successors. And the
  block of the parent of a node is the immediate post-dominator of the node's block, so it
  properly post-dominates that block.
\<close>

definition root_is_exit :: "CFG \<Rightarrow> PostDominatorTree \<Rightarrow> bool" where
  "root_is_exit F PDT =
     (\<forall>(A, succs) \<in> set F. \<forall>domNodeA.
        getNode PDT A = Some domNodeA \<and> getIDom domNodeA = None \<longrightarrow> succs = [])"

definition idom_properly_dominates :: "CFG \<Rightarrow> PostDominatorTree \<Rightarrow> bool" where
  "idom_properly_dominates F PDT =
     (\<forall>(A, succs) \<in> set F. \<forall>B \<in> set succs. \<forall>domNodeA p.
        getNode PDT A = Some domNodeA \<and> getIDom domNodeA = Some p \<and> getNode PDT B = Some p
          \<longrightarrow> properlyDominates PDT B A)"

text \<open>
  No key of the map has an empty dependent-set.
\<close>

definition no_empty_set :: "ControlDeps \<Rightarrow> bool" where
  "no_empty_set controlDeps = (\<forall>A s. controlDeps A = Some s \<longrightarrow> s \<noteq> {})"

text \<open>
  The loop of a header \<open>H\<close>, a body \<open>X\<close> and an exit \<open>Y\<close>, with the edges \<open>H \<rightarrow> X\<close>,
  \<open>H \<rightarrow> Y\<close> and \<open>X \<rightarrow> H\<close>, and its post-dominator tree: \<open>Y\<close> is the root, the parent of
  \<open>H\<close> is \<open>Y\<close> and the parent of \<open>X\<close> is \<open>H\<close>.
\<close>

definition blk_H :: BasicBlock where
  "blk_H = 1"

definition blk_X :: BasicBlock where
  "blk_X = 2"

definition blk_Y :: BasicBlock where
  "blk_Y = 3"

definition node_Y :: DomTreeNode where
  "node_Y = DomTreeNode blk_Y None"

definition node_H :: DomTreeNode where
  "node_H = DomTreeNode blk_H (Some node_Y)"

definition node_X :: DomTreeNode where
  "node_X = DomTreeNode blk_X (Some node_H)"

definition loop_CFG :: CFG where
  "loop_CFG = [(blk_H, [blk_X, blk_Y]), (blk_X, [blk_H]), (blk_Y, [])]"

definition loop_PDT :: PostDominatorTree where
  "loop_PDT =
     \<lparr>properlyDominates =
        (\<lambda>B A. (B = blk_Y \<and> (A = blk_H \<or> A = blk_X)) \<or> (B = blk_H \<and> A = blk_X)),
      findNearestCommonDominator =
        (\<lambda>A B. if A \<in> {blk_H, blk_X, blk_Y} \<and> B \<in> {blk_H, blk_X, blk_Y}
               then (if A = blk_Y \<or> B = blk_Y then blk_Y
                     else if A = blk_H \<or> B = blk_H then blk_H else blk_X)
               else NULL),
      getNode =
        (\<lambda>b. if b = blk_H then Some node_H
             else if b = blk_X then Some node_X
             else if b = blk_Y then Some node_Y else None)\<rparr>"

lemmas loop_defs = blk_H_def blk_X_def blk_Y_def node_Y_def node_H_def node_X_def loop_CFG_def
  loop_PDT_def NULL_def

section \<open>Properties\<close>

subsection \<open>The tracker: one instruction and a whole run\<close>

lemma push_back_all_eq:
  "push_back_all inst NL m =
     (if NL = [] then m else m(inst \<mapsto> (case m inst of None \<Rightarrow> [] | Some v \<Rightarrow> v) @ NL))"
  by (induction NL arbitrary: m) (auto split: option.splits)

lemma getDepInfo_cases:
  "getDepInfo dep = Inr d \<Longrightarrow>
     DepInst d = getInst dep \<and> Type d \<noteq> Invalid \<and> (Type d = NonLocal \<longrightarrow> isNonLocal dep)"
  by (auto simp: getDepInfo_def split: if_splits)

lemma getDepInfo_exactly_one:
  "exactly_one dep \<Longrightarrow> isNonLocal dep \<Longrightarrow>
     getDepInfo dep = Inr \<lparr>DepInst = getInst dep, Type = NonLocal\<rparr>"
  by (auto simp: getDepInfo_def exactly_one_def split: if_splits)

lemma processDepResult_local:
  "\<not> isNonLocal (getDependency MDA inst) \<Longrightarrow>
   processDepResult inst MDA AA dd =
     (case getDepInfo (getDependency MDA inst) of
        Inl f \<Rightarrow> (Some f, dd)
      | Inr d \<Rightarrow> (None, dd\<lparr>LocalDeps := (LocalDeps dd)(inst \<mapsto> d)\<rparr>))"
  by (auto simp: processDepResult_def Let_def valid_def split: sum.splits dest: getDepInfo_cases)

lemma processDepResult_nonlocal:
  "isNonLocal (getDependency MDA inst) \<Longrightarrow> processDepResult inst MDA AA dd = (None, dd') \<Longrightarrow>
   dd' = dd\<lparr>NonLocalDeps := push_back_all inst (NLDep_of inst MDA AA) (NonLocalDeps dd)\<rparr>"
  by (auto simp: processDepResult_def Let_def NLDep_of_def split: sum.splits if_splits InstKind.splits)

lemma getDepInfo_local_kind:
  "\<not> isNonLocal dep \<Longrightarrow> getDepInfo dep = Inr d \<Longrightarrow>
     Type d \<in> {Clobber, Def, NonFuncLocal, Unknown}"
  by (auto simp: getDepInfo_def split: if_splits)

lemma processDepResult_LocalDeps_cases:
  "LocalDeps (snd (processDepResult inst MDA AA dd)) j = Some e \<Longrightarrow>
     LocalDeps dd j = Some e \<or>
     (\<not> isNonLocal (getDependency MDA inst) \<and> getDepInfo (getDependency MDA inst) = Inr e)"
  by (auto simp: processDepResult_def Let_def split: sum.splits if_splits InstKind.splits)

lemma getDataDependencies_LocalDeps_cases:
  "LocalDeps (snd (getDataDependencies F MDA AA dd)) j = Some e \<Longrightarrow>
     LocalDeps dd j = Some e \<or>
     (\<exists>inst \<in> set F. \<not> isNonLocal (getDependency MDA inst) \<and>
        getDepInfo (getDependency MDA inst) = Inr e)"
proof (induction F arbitrary: dd)
  case Nil
  then show ?case by simp
next
  case (Cons inst rest)
  show ?case
  proof (cases "\<not> mayReadFromMemory inst \<and> \<not> mayWriteToMemory inst")
    case True
    with Cons.prems have "LocalDeps (snd (getDataDependencies rest MDA AA dd)) j = Some e"
      by simp
    from Cons.IH [OF this] show ?thesis by auto
  next
    case False
    obtain r dd1 where step: "processDepResult inst MDA AA dd = (r, dd1)"
      by (cases "processDepResult inst MDA AA dd")
    have dd1: "dd1 = snd (processDepResult inst MDA AA dd)"
      using step by simp
    show ?thesis
    proof (cases r)
      case None
      with Cons.prems False step
      have "LocalDeps (snd (getDataDependencies rest MDA AA dd1)) j = Some e"
        by simp
      from Cons.IH [OF this] show ?thesis
        using processDepResult_LocalDeps_cases [of inst MDA AA dd j e] dd1 by auto
    next
      case (Some f)
      with Cons.prems False step have "LocalDeps dd1 j = Some e"
        by simp
      then show ?thesis
        using processDepResult_LocalDeps_cases [of inst MDA AA dd j e] dd1 by auto
    qed
  qed
qed

lemma processDepResult_doms:
  "processDepResult inst MDA AA dd = (None, dd') \<Longrightarrow>
     dom (LocalDeps dd') =
       dom (LocalDeps dd) \<union> (if \<not> isNonLocal (getDependency MDA inst) then {inst} else {}) \<and>
     dom (NonLocalDeps dd') =
       dom (NonLocalDeps dd) \<union>
       (if isNonLocal (getDependency MDA inst) \<and> NLDep_of inst MDA AA \<noteq> [] then {inst} else {})"
proof (cases "isNonLocal (getDependency MDA inst)")
  case True
  assume "processDepResult inst MDA AA dd = (None, dd')"
  from processDepResult_nonlocal [OF True this] show ?thesis
    using True by (simp add: push_back_all_eq)
next
  case False
  assume "processDepResult inst MDA AA dd = (None, dd')"
  then show ?thesis
    using False by (auto simp: processDepResult_local split: sum.splits)
qed

lemma getDataDependencies_doms:
  "getDataDependencies F MDA AA dd = (None, dd') \<Longrightarrow>
     dom (LocalDeps dd') =
       dom (LocalDeps dd) \<union>
       {i \<in> set F. (mayReadFromMemory i \<or> mayWriteToMemory i) \<and>
                    \<not> isNonLocal (getDependency MDA i)} \<and>
     dom (NonLocalDeps dd') =
       dom (NonLocalDeps dd) \<union>
       {i \<in> set F. (mayReadFromMemory i \<or> mayWriteToMemory i) \<and>
                    isNonLocal (getDependency MDA i) \<and> NLDep_of i MDA AA \<noteq> []}"
proof (induction F arbitrary: dd)
  case Nil
  then show ?case by simp
next
  case (Cons inst rest)
  show ?case
  proof (cases "\<not> mayReadFromMemory inst \<and> \<not> mayWriteToMemory inst")
    case True
    with Cons.prems have "getDataDependencies rest MDA AA dd = (None, dd')"
      by simp
    from Cons.IH [OF this] show ?thesis
      using True by auto
  next
    case False
    obtain r dd1 where step: "processDepResult inst MDA AA dd = (r, dd1)"
      by (cases "processDepResult inst MDA AA dd")
    with Cons.prems False have r: "r = None"
      by (cases r) auto
    with Cons.prems False step have rest: "getDataDependencies rest MDA AA dd1 = (None, dd')"
      by simp
    from processDepResult_doms [OF step [unfolded r]] Cons.IH [OF rest] False
    show ?thesis by auto
  qed
qed

text \<open>
  Claim C1, as stated, fails. The claim: for a variadic-argument access whose oracle
  result is non-local, the non-local query is issued read-oriented, with the flag a load
  uses. Here the oracle has entries for read-oriented queries only; the variadic-argument
  access is processed without a fatal signal and gets no record, while the read-oriented
  query for the same location and block returns one entry.
\<close>

theorem vaarg_query_not_read_oriented_counterexample:
  "isNonLocal (getDependency MDA_reads_only ex_vaarg) \<and>
   fst (processDepResult ex_vaarg MDA_reads_only ex_AA DataDependence_init) = None \<and>
   NonLocalDeps (snd (processDepResult ex_vaarg MDA_reads_only ex_AA DataDependence_init)) ex_vaarg
     = None \<and>
   push_back_all ex_vaarg
     (getNonLocalPointerDependency MDA_reads_only (getLocation ex_AA ex_vaarg) True
        (getParent ex_vaarg))
     (NonLocalDeps DataDependence_init) ex_vaarg = Some [ex_entry]"
  by (simp add: ex_defs processDepResult_def getDepInfo_def)

text \<open>
  Claim C1, amended: for a variadic-argument access whose oracle result is non-local, the
  non-local query is issued with the is-read flag \<open>False\<close>, the flag of an unordered store;
  an unordered load is the one access whose query carries the flag \<open>True\<close>. The entries
  of that query are what is stored.
\<close>

theorem vaarg_query_write_oriented:
  assumes "isNonLocal (getDependency MDA inst)"
    and "exactly_one (getDependency MDA inst)"
  shows "(kind inst = VAArgInst \<or> kind inst = StoreInst True \<longrightarrow>
            processDepResult inst MDA AA dd =
              (None, dd\<lparr>NonLocalDeps :=
                 push_back_all inst
                   (getNonLocalPointerDependency MDA (getLocation AA inst) False (getParent inst))
                   (NonLocalDeps dd)\<rparr>)) \<and>
         (kind inst = LoadInst True \<longrightarrow>
            processDepResult inst MDA AA dd =
              (None, dd\<lparr>NonLocalDeps :=
                 push_back_all inst
                   (getNonLocalPointerDependency MDA (getLocation AA inst) True (getParent inst))
                   (NonLocalDeps dd)\<rparr>))"
  using assms getDepInfo_exactly_one [OF assms(2) assms(1)]
  by (auto simp: processDepResult_def Let_def)

text \<open>
  Claim C1, amended, at the variadic-argument access of the example.
\<close>

theorem vaarg_query_write_oriented_witness:
  "isNonLocal (getDependency MDA_reads_only ex_vaarg) \<and>
   exactly_one (getDependency MDA_reads_only ex_vaarg) \<and>
   kind ex_vaarg = VAArgInst \<and>
   processDepResult ex_vaarg MDA_reads_only ex_AA DataDependence_init =
     (None, DataDependence_init\<lparr>NonLocalDeps :=
        push_back_all ex_vaarg
          (getNonLocalPointerDependency MDA_reads_only (getLocation ex_AA ex_vaarg) False
             (getParent ex_vaarg))
          (NonLocalDeps DataDependence_init)\<rparr>)"
proof -
  have h1: "isNonLocal (getDependency MDA_reads_only ex_vaarg)"
    by (simp add: ex_defs)
  have h2: "exactly_one (getDependency MDA_reads_only ex_vaarg)"
    by (simp add: ex_defs exactly_one_def)
  have k: "kind ex_vaarg = VAArgInst"
    by (simp add: ex_defs)
  from vaarg_query_write_oriented [OF h1 h2, where AA = ex_AA and dd = DataDependence_init] h1 h2 k
  show ?thesis by simp
qed




text \<open>
  Claim C3, as stated, fails. The claim: an instruction processed without a fatal signal
  is afterwards a key of exactly one of the two maps, and a key of the Non-Local map even
  when the oracle returns no entry. Here a store has a non-local result and the oracle
  returns the empty sequence: the run ends without a fatal signal and the store is a key of
  neither map.
\<close>

theorem partition_counterexample:
  "(mayReadFromMemory ex_store \<or> mayWriteToMemory ex_store) \<and>
   isNonLocal (getDependency MDA_reads_only ex_store) \<and>
   fst (getDataDependencies [ex_store] MDA_reads_only ex_AA DataDependence_init) = None \<and>
   LocalDeps (snd (getDataDependencies [ex_store] MDA_reads_only ex_AA DataDependence_init)) ex_store
     = None \<and>
   NonLocalDeps (snd (getDataDependencies [ex_store] MDA_reads_only ex_AA DataDependence_init)) ex_store
     = None"
  by (simp add: ex_defs processDepResult_def getDepInfo_def)

text \<open>
  Claim C3, amended: after a run over a function that starts from the empty maps and ends
  without a fatal signal, a memory-accessing instruction of the function is a key of the
  Local map exactly when its oracle result is not non-local, and a key of the Non-Local
  map exactly when its oracle result is non-local and the non-local query returned at
  least one entry; it is never a key of both. When the query returns the empty sequence
  the instruction is a key of neither map.
\<close>

theorem partition_after_run:
  assumes "fst (getDataDependencies F MDA AA DataDependence_init) = None"
    and "inst \<in> set F"
    and "mayReadFromMemory inst \<or> mayWriteToMemory inst"
  shows "(inst \<in> dom (LocalDeps (snd (getDataDependencies F MDA AA DataDependence_init))) \<longleftrightarrow>
            \<not> isNonLocal (getDependency MDA inst)) \<and>
         (inst \<in> dom (NonLocalDeps (snd (getDataDependencies F MDA AA DataDependence_init))) \<longleftrightarrow>
            isNonLocal (getDependency MDA inst) \<and> NLDep_of inst MDA AA \<noteq> []) \<and>
         \<not> (inst \<in> dom (LocalDeps (snd (getDataDependencies F MDA AA DataDependence_init))) \<and>
            inst \<in> dom (NonLocalDeps (snd (getDataDependencies F MDA AA DataDependence_init))))"
proof -
  obtain dd' where run: "getDataDependencies F MDA AA DataDependence_init = (None, dd')"
    using assms(1) by (cases "getDataDependencies F MDA AA DataDependence_init") auto
  have init: "dom (LocalDeps DataDependence_init) = {}" "dom (NonLocalDeps DataDependence_init) = {}"
    by (simp_all add: DataDependence_init_def)
  from getDataDependencies_doms [OF run] assms(2,3) show ?thesis
    unfolding run snd_conv init by blast
qed

text \<open>
  Claim C3, amended, on a function of a load with a local result and a variadic-argument
  access with a non-local one.
\<close>

theorem partition_after_run_witness:
  "fst (getDataDependencies [ex_load, ex_vaarg] MDA_mixed ex_AA DataDependence_init) = None \<and>
   ex_vaarg \<in> set [ex_load, ex_vaarg] \<and>
   (mayReadFromMemory ex_vaarg \<or> mayWriteToMemory ex_vaarg) \<and>
   isNonLocal (getDependency MDA_mixed ex_vaarg) \<and>
   NLDep_of ex_vaarg MDA_mixed ex_AA \<noteq> [] \<and>
   ex_vaarg \<in> dom (NonLocalDeps
      (snd (getDataDependencies [ex_load, ex_vaarg] MDA_mixed ex_AA DataDependence_init))) \<and>
   ex_vaarg \<notin> dom (LocalDeps
      (snd (getDataDependencies [ex_load, ex_vaarg] MDA_mixed ex_AA DataDependence_init)))"
proof -
  have h1: "fst (getDataDependencies [ex_load, ex_vaarg] MDA_mixed ex_AA DataDependence_init) = None"
    by (simp add: ex_defs processDepResult_def getDepInfo_def valid_def)
  have h2: "ex_vaarg \<in> set [ex_load, ex_vaarg]"
    by simp
  have h3: "mayReadFromMemory ex_vaarg \<or> mayWriteToMemory ex_vaarg"
    by (simp add: ex_defs)
  have h4: "isNonLocal (getDependency MDA_mixed ex_vaarg)"
    by (simp add: ex_defs)
  have h5: "NLDep_of ex_vaarg MDA_mixed ex_AA \<noteq> []"
    by (simp add: ex_defs NLDep_of_def)
  from partition_after_run [OF h1 h2 h3] h1 h2 h3 h4 h5 show ?thesis
    by blast
qed

text \<open>
  Claim C4: an atomic or volatile load or store (one that is not unordered) whose oracle
  result is non-local ends in a fatal signal and leaves the Local map and the Non-Local
  map as they were; when non-local is the one predicate that holds of the result, the
  signal is the failed assertion on atomic or volatile accesses, raised after the warning
  has been written.
\<close>

theorem atomic_access_fatal:
  assumes "kind inst = LoadInst False \<or> kind inst = StoreInst False"
    and "isNonLocal (getDependency MDA inst)"
  shows "fst (processDepResult inst MDA AA dd) \<noteq> None \<and>
         LocalDeps (snd (processDepResult inst MDA AA dd)) = LocalDeps dd \<and>
         NonLocalDeps (snd (processDepResult inst MDA AA dd)) = NonLocalDeps dd \<and>
         (exactly_one (getDependency MDA inst) \<longrightarrow>
            processDepResult inst MDA AA dd =
              (if kind inst = LoadInst False
               then (Some (AssertionFailed ''atomic/volatile loads not handled''),
                     dd\<lparr>errs := errs dd @ [''[WARNING] atomic/volatile loads are not handled'']\<rparr>)
               else (Some (AssertionFailed ''atomic/volatile stores not handled''),
                     dd\<lparr>errs := errs dd @ [''[WARNING] atomic/volatile stores are not handled'']\<rparr>)))"
proof -
  have general: "fst (processDepResult inst MDA AA dd) \<noteq> None \<and>
         LocalDeps (snd (processDepResult inst MDA AA dd)) = LocalDeps dd \<and>
         NonLocalDeps (snd (processDepResult inst MDA AA dd)) = NonLocalDeps dd"
    using assms by (auto simp: processDepResult_def Let_def split: sum.splits)
  have exact: "processDepResult inst MDA AA dd =
              (if kind inst = LoadInst False
               then (Some (AssertionFailed ''atomic/volatile loads not handled''),
                     dd\<lparr>errs := errs dd @ [''[WARNING] atomic/volatile loads are not handled'']\<rparr>)
               else (Some (AssertionFailed ''atomic/volatile stores not handled''),
                     dd\<lparr>errs := errs dd @ [''[WARNING] atomic/volatile stores are not handled'']\<rparr>))"
    if "exactly_one (getDependency MDA inst)"
    using assms getDepInfo_exactly_one [OF that assms(2)]
    by (auto simp: processDepResult_def Let_def)
  from general exact show ?thesis by blast
qed

text \<open>
  Claim C4 at an atomic load, from the empty maps.
\<close>

theorem atomic_access_fatal_witness:
  "kind ex_atomic_load = LoadInst False \<and>
   isNonLocal (getDependency MDA_reads_only ex_atomic_load) \<and>
   exactly_one (getDependency MDA_reads_only ex_atomic_load) \<and>
   processDepResult ex_atomic_load MDA_reads_only ex_AA DataDependence_init =
     (Some (AssertionFailed ''atomic/volatile loads not handled''),
      DataDependence_init\<lparr>errs := [''[WARNING] atomic/volatile loads are not handled'']\<rparr>) \<and>
   LocalDeps (snd (processDepResult ex_atomic_load MDA_reads_only ex_AA DataDependence_init))
     = Map.empty \<and>
   NonLocalDeps (snd (processDepResult ex_atomic_load MDA_reads_only ex_AA DataDependence_init))
     = Map.empty"
proof -
  have k: "kind ex_atomic_load = LoadInst False"
    by (simp add: ex_defs)
  have h1: "kind ex_atomic_load = LoadInst False \<or> kind ex_atomic_load = StoreInst False"
    using k by simp
  have h2: "isNonLocal (getDependency MDA_reads_only ex_atomic_load)"
    by (simp add: ex_defs)
  have h3: "exactly_one (getDependency MDA_reads_only ex_atomic_load)"
    by (simp add: ex_defs exactly_one_def)
  have e: "errs DataDependence_init = []"
    by (simp add: DataDependence_init_def)
  have l: "LocalDeps DataDependence_init = Map.empty" "NonLocalDeps DataDependence_init = Map.empty"
    by (simp_all add: DataDependence_init_def)
  from atomic_access_fatal [OF h1 h2, where AA = ex_AA and dd = DataDependence_init] k h2 h3 e l
  show ?thesis by simp
qed

text \<open>
  Claim C6: when exactly one of the five predicates holds of an oracle result, the
  classification yields the record with the corresponding kind and the instruction pointer
  the oracle reported; and a run never stores a record of kind \<open>Invalid\<close> in the Local
  map: when no such record is there before a run, none is there after it.
\<close>

theorem classification_one_to_one:
  assumes "exactly_one dep"
  shows "(\<exists>d. getDepInfo dep = Inr d \<and> DepInst d = getInst dep \<and>
              (isClobber dep \<longrightarrow> Type d = Clobber) \<and>
              (isDef dep \<longrightarrow> Type d = Def) \<and>
              (isNonFuncLocal dep \<longrightarrow> Type d = NonFuncLocal) \<and>
              (isUnknown dep \<longrightarrow> Type d = Unknown) \<and>
              (isNonLocal dep \<longrightarrow> Type d = NonLocal)) \<and>
         ((\<forall>j e. LocalDeps dd j = Some e \<longrightarrow> Type e \<noteq> Invalid) \<longrightarrow>
          (\<forall>j e. LocalDeps (snd (getDataDependencies F MDA AA dd)) j = Some e \<longrightarrow>
                 Type e \<noteq> Invalid))"
proof
  show "\<exists>d. getDepInfo dep = Inr d \<and> DepInst d = getInst dep \<and>
              (isClobber dep \<longrightarrow> Type d = Clobber) \<and>
              (isDef dep \<longrightarrow> Type d = Def) \<and>
              (isNonFuncLocal dep \<longrightarrow> Type d = NonFuncLocal) \<and>
              (isUnknown dep \<longrightarrow> Type d = Unknown) \<and>
              (isNonLocal dep \<longrightarrow> Type d = NonLocal)"
    using assms by (auto simp: getDepInfo_def exactly_one_def split: if_splits)
next
  show "(\<forall>j e. LocalDeps dd j = Some e \<longrightarrow> Type e \<noteq> Invalid) \<longrightarrow>
          (\<forall>j e. LocalDeps (snd (getDataDependencies F MDA AA dd)) j = Some e \<longrightarrow>
                 Type e \<noteq> Invalid)"
    using getDataDependencies_LocalDeps_cases [of F MDA AA dd] getDepInfo_cases
    by blast
qed

text \<open>
  Claim C6 at a result that is a definition, and at the run that stores it.
\<close>

theorem classification_one_to_one_witness:
  "exactly_one res_Def \<and>
   getDepInfo res_Def = Inr \<lparr>DepInst = Some ex_store, Type = Def\<rparr> \<and>
   LocalDeps (snd (getDataDependencies [ex_load] MDA_mixed ex_AA DataDependence_init)) ex_load
     = Some \<lparr>DepInst = Some ex_store, Type = Def\<rparr> \<and>
   Type \<lparr>DepInst = Some ex_store, Type = Def\<rparr> \<noteq> Invalid"
proof -
  have h: "exactly_one res_Def"
    by (simp add: ex_defs exactly_one_def)
  have i: "\<forall>j e. LocalDeps DataDependence_init j = Some e \<longrightarrow> Type e \<noteq> Invalid"
    by (simp add: DataDependence_init_def)
  have d: "isDef res_Def" "getInst res_Def = Some ex_store"
    by (simp_all add: ex_defs)
  have r: "LocalDeps (snd (getDataDependencies [ex_load] MDA_mixed ex_AA DataDependence_init)) ex_load
     = Some \<lparr>DepInst = Some ex_store, Type = Def\<rparr>"
    by (simp add: ex_defs processDepResult_def getDepInfo_def valid_def)
  from classification_one_to_one [OF h, of DataDependence_init "[ex_load]" MDA_mixed ex_AA]
    h i d r
  show ?thesis by auto
qed



text \<open>
  Claim C10: every record a run stores in the Local map has a kind among \<open>Clobber\<close>,
  \<open>Def\<close>, \<open>NonFuncLocal\<close> and \<open>Unknown\<close>, never \<open>NonLocal\<close>: when the records
  present before the run have such a kind, so has every record present after it.
\<close>

theorem LocalDeps_never_NonLocal:
  assumes "\<forall>j e. LocalDeps dd j = Some e \<longrightarrow> Type e \<in> {Clobber, Def, NonFuncLocal, Unknown}"
    and "LocalDeps (snd (getDataDependencies F MDA AA dd)) i = Some d"
  shows "Type d \<in> {Clobber, Def, NonFuncLocal, Unknown} \<and> Type d \<noteq> NonLocal"
proof -
  from getDataDependencies_LocalDeps_cases [OF assms(2)] assms(1)
  have "Type d \<in> {Clobber, Def, NonFuncLocal, Unknown}"
    using getDepInfo_local_kind by blast
  then show ?thesis by auto
qed

text \<open>
  Claim C10 at the record stored for the load of the example.
\<close>

theorem LocalDeps_never_NonLocal_witness:
  "LocalDeps (snd (getDataDependencies [ex_load, ex_vaarg] MDA_mixed ex_AA DataDependence_init))
     ex_load = Some \<lparr>DepInst = Some ex_store, Type = Def\<rparr> \<and>
   Type \<lparr>DepInst = Some ex_store, Type = Def\<rparr> \<in> {Clobber, Def, NonFuncLocal, Unknown} \<and>
   Type \<lparr>DepInst = Some ex_store, Type = Def\<rparr> \<noteq> NonLocal"
proof -
  have i: "\<forall>j e. LocalDeps DataDependence_init j = Some e \<longrightarrow>
             Type e \<in> {Clobber, Def, NonFuncLocal, Unknown}"
    by (simp add: DataDependence_init_def)
  have r: "LocalDeps
      (snd (getDataDependencies [ex_load, ex_vaarg] MDA_mixed ex_AA DataDependence_init))
      ex_load = Some \<lparr>DepInst = Some ex_store, Type = Def\<rparr>"
    by (simp add: ex_defs processDepResult_def getDepInfo_def valid_def push_back_all_eq)
  from LocalDeps_never_NonLocal [OF i r] r show ?thesis
    by blast
qed

subsection \<open>The builder: the upward walk, one edge and a whole run\<close>

declare walk_up.simps [simp del]

lemma walk_up_None:
  "walk_up None parentA depSet = (if parentA = None then Inr depSet else Inl NullDereference)"
  by (subst walk_up.simps) auto

lemma walk_up_Some:
  "walk_up (Some n) parentA depSet =
     (if Some n = parentA then Inr depSet
      else walk_up (getIDom n) parentA (insert (getBlock n) depSet))"
  by (subst walk_up.simps) auto

lemma walk_up_result:
  "walk_up curNode parentA depSet =
     (if reaches curNode parentA
      then Inr (depSet \<union> getBlock ` set (visited curNode parentA))
      else Inl NullDereference)"
proof (induction curNode arbitrary: depSet rule: ancestors.induct)
  case 1
  show ?case
    by (cases parentA) (simp_all add: walk_up_None reaches_def visited_def)
next
  case (2 b idom)
  show ?case
  proof (cases "Some (DomTreeNode b idom) = parentA")
    case True
    then show ?thesis
      by (auto simp: walk_up_Some reaches_def visited_def)
  next
    case False
    have r: "reaches (Some (DomTreeNode b idom)) parentA = reaches idom parentA"
      using False by (cases parentA) (auto simp: reaches_def)
    have v: "visited (Some (DomTreeNode b idom)) parentA = DomTreeNode b idom # visited idom parentA"
      using False by (simp add: visited_def)
    show ?thesis
      using False by (simp add: walk_up_Some "2.IH" r v)
  qed
qed





lemma update_edge_effect:
  "update_edge PDT e controlDeps =
     (case edge_effect PDT e of
        Inl f \<Rightarrow> Inl f
      | Inr None \<Rightarrow> Inr controlDeps
      | Inr (Some V) \<Rightarrow> Inr (controlDeps(tail e \<mapsto> depSet_of controlDeps (tail e) \<union> V)))"
  by (auto simp: update_edge_def edge_effect_def Let_def walk_up_result depSet_of_def
           split: option.splits)

lemma succ_loop_set:
  "set (succ_loop PDT A succs S) =
     set S \<union> {\<lparr>tail = A, head = B\<rparr> | B. B \<in> set succs \<and> \<not> properlyDominates PDT B A}"
  by (induction succs arbitrary: S) auto

lemma block_loop_set:
  "set (block_loop PDT F S) =
     set S \<union> {\<lparr>tail = A, head = B\<rparr> | A B succs.
                (A, succs) \<in> set F \<and> B \<in> set succs \<and> \<not> properlyDominates PDT B A}"
proof (induction PDT F S rule: block_loop.induct)
  case (1 PDT S)
  then show ?case by simp
next
  case (2 PDT A succs BBi S)
  show ?case
    unfolding block_loop.simps "2.IH" succ_loop_set by auto
qed

lemma getNonPDomEdges_set:
  "set (getNonPDomEdges F PDT) =
     {\<lparr>tail = A, head = B\<rparr> | A B succs.
        (A, succs) \<in> set F \<and> B \<in> set succs \<and> \<not> properlyDominates PDT B A}"
  by (simp add: getNonPDomEdges_def block_loop_set)

lemma update_edge_absorbs:
  "update_edge PDT e controlDeps = Inr controlDeps' \<Longrightarrow> absorbs controlDeps' PDT e"
  by (auto simp: update_edge_effect absorbs_def split: sum.splits option.splits)

lemma update_edge_grows:
  "update_edge PDT e controlDeps = Inr controlDeps' \<Longrightarrow> grows_to controlDeps controlDeps'"
  by (auto simp: update_edge_effect grows_to_def depSet_of_def split: sum.splits option.splits)

lemma absorbs_grows:
  "absorbs controlDeps PDT e \<Longrightarrow> grows_to controlDeps controlDeps' \<Longrightarrow> absorbs controlDeps' PDT e"
  unfolding absorbs_def grows_to_def by (meson subset_trans)

lemma grows_to_trans:
  "grows_to a b \<Longrightarrow> grows_to b c \<Longrightarrow> grows_to a c"
  unfolding grows_to_def by (meson subset_trans)

lemma grows_to_refl: "grows_to a a"
  by (simp add: grows_to_def)

lemma absorbs_fixed:
  assumes "absorbs controlDeps PDT e"
  shows "update_edge PDT e controlDeps = Inr controlDeps"
proof -
  from assms consider "edge_effect PDT e = Inr None"
    | V s where "edge_effect PDT e = Inr (Some V)" "controlDeps (tail e) = Some s" "V \<subseteq> s"
    unfolding absorbs_def by blast
  then show ?thesis
  proof cases
    case 1
    then show ?thesis by (simp add: update_edge_effect)
  next
    case 2
    then have "depSet_of controlDeps (tail e) \<union> V = s"
      by (auto simp: depSet_of_def)
    with 2 have "controlDeps(tail e \<mapsto> depSet_of controlDeps (tail e) \<union> V) = controlDeps"
      by (simp add: fun_upd_idem)
    with 2 show ?thesis by (simp add: update_edge_effect)
  qed
qed

lemma updateControlDependencies_absorbs:
  "updateControlDependencies S PDT controlDeps = Inr controlDeps' \<Longrightarrow>
     (\<forall>e \<in> set S. absorbs controlDeps' PDT e) \<and> grows_to controlDeps controlDeps'"
proof (induction S arbitrary: controlDeps)
  case Nil
  then show ?case by (simp add: grows_to_refl)
next
  case (Cons e S)
  from Cons.prems obtain mid where
    step: "update_edge PDT e controlDeps = Inr mid"
    and rest: "updateControlDependencies S PDT mid = Inr controlDeps'"
    by (auto split: sum.splits)
  from Cons.IH [OF rest] have ih: "\<forall>e \<in> set S. absorbs controlDeps' PDT e"
    and g: "grows_to mid controlDeps'"
    by simp_all
  have "absorbs controlDeps' PDT e"
    using absorbs_grows [OF update_edge_absorbs [OF step] g] .
  moreover have "grows_to controlDeps controlDeps'"
    using grows_to_trans [OF update_edge_grows [OF step] g] .
  ultimately show ?case using ih by simp
qed

lemma updateControlDependencies_fixed:
  "\<forall>e \<in> set S. absorbs controlDeps PDT e \<Longrightarrow>
     updateControlDependencies S PDT controlDeps = Inr controlDeps"
  by (induction S) (simp_all add: absorbs_fixed)

lemma visited_nonempty:
  assumes "curNode \<noteq> parentA" and "reaches curNode parentA"
  shows "visited curNode parentA \<noteq> []"
proof (cases curNode)
  case None
  with assms show ?thesis
    by (cases parentA) (auto simp: reaches_def)
next
  case (Some n)
  with assms(1) show ?thesis
    by (cases n) (auto simp: visited_def)
qed

lemma update_edge_no_empty_set:
  assumes "update_edge PDT e controlDeps = Inr controlDeps'"
    and "no_empty_set controlDeps"
    and "\<forall>domNodeA. getNode PDT (tail e) = Some domNodeA \<longrightarrow>
           getNode PDT (head e) \<noteq> getIDom domNodeA"
  shows "no_empty_set controlDeps'"
proof (cases "findNearestCommonDominator PDT (tail e) (head e) = NULL")
  case True
  with assms(1,2) show ?thesis
    by (simp add: update_edge_effect edge_effect_def)
next
  case False
  with assms(1) obtain domNodeA where
    a: "getNode PDT (tail e) = Some domNodeA"
    and r: "reaches (getNode PDT (head e)) (getIDom domNodeA)"
    and c: "controlDeps' = controlDeps(tail e \<mapsto> depSet_of controlDeps (tail e) \<union>
              getBlock ` set (visited (getNode PDT (head e)) (getIDom domNodeA)))"
    by (auto simp: update_edge_effect edge_effect_def split: option.splits if_splits)
  from assms(3) a have "getNode PDT (head e) \<noteq> getIDom domNodeA"
    by simp
  from visited_nonempty [OF this r]
  have "getBlock ` set (visited (getNode PDT (head e)) (getIDom domNodeA)) \<noteq> {}"
    by simp
  with assms(2) show ?thesis
    unfolding c no_empty_set_def by auto
qed

lemma updateControlDependencies_no_empty_set:
  assumes "updateControlDependencies S PDT controlDeps = Inr controlDeps'"
    and "no_empty_set controlDeps"
    and "\<forall>e \<in> set S. \<forall>domNodeA. getNode PDT (tail e) = Some domNodeA \<longrightarrow>
           getNode PDT (head e) \<noteq> getIDom domNodeA"
  shows "no_empty_set controlDeps'"
  using assms
proof (induction S arbitrary: controlDeps)
  case Nil
  then show ?case by simp
next
  case (Cons e S)
  from Cons.prems(1) obtain mid where
    step: "update_edge PDT e controlDeps = Inr mid"
    and rest: "updateControlDependencies S PDT mid = Inr controlDeps'"
    by (auto split: sum.splits)
  have "no_empty_set mid"
    using update_edge_no_empty_set [OF step Cons.prems(2)] Cons.prems(3) by simp
  from Cons.IH [OF rest this] Cons.prems(3) show ?case by simp
qed

lemma selected_edge_progress:
  assumes "root_is_exit F PDT" and "idom_properly_dominates F PDT"
    and "e \<in> set (getNonPDomEdges F PDT)"
    and "getNode PDT (tail e) = Some domNodeA"
  shows "getNode PDT (head e) \<noteq> getIDom domNodeA"
proof
  assume eq: "getNode PDT (head e) = getIDom domNodeA"
  from assms(3) obtain A B succs where
    e: "e = \<lparr>tail = A, head = B\<rparr>" and F: "(A, succs) \<in> set F" and B: "B \<in> set succs"
    and sel: "\<not> properlyDominates PDT B A"
    unfolding getNonPDomEdges_set by blast
  show False
  proof (cases "getIDom domNodeA")
    case None
    with assms(1,4) F e have "succs = []"
      unfolding root_is_exit_def by fastforce
    with B show False by simp
  next
    case (Some p)
    with assms(2,4) F B e eq have "properlyDominates PDT B A"
      unfolding idom_properly_dominates_def by fastforce
    with sel show False by simp
  qed
qed

lemma updateControlDependencies_total:
  "\<forall>e \<in> set S. \<exists>v. edge_effect PDT e = Inr v \<Longrightarrow>
     \<exists>controlDeps'. updateControlDependencies S PDT controlDeps = Inr controlDeps'"
proof (induction S arbitrary: controlDeps)
  case Nil
  show ?case by simp
next
  case (Cons e S)
  then obtain v where "edge_effect PDT e = Inr v"
    by auto
  then obtain mid where "update_edge PDT e controlDeps = Inr mid"
    by (cases v) (auto simp: update_edge_effect)
  with Cons show ?case
    by simp
qed

lemma loop_run:
  "getControlDependencies loop_CFG loop_PDT Map.empty = Inr [blk_H \<mapsto> {blk_H, blk_X}]"
  by (simp add: loop_defs getControlDependencies_def getNonPDomEdges_def update_edge_def
        walk_up_Some walk_up_None insert_commute)

text \<open>
  Claim C2: for the function of a header \<open>H\<close> with the successors \<open>X\<close> and \<open>Y\<close>, a body
  \<open>X\<close> with the successor \<open>H\<close> and an exit \<open>Y\<close>, and its post-dominator tree (\<open>Y\<close> the
  root, \<open>H\<close> below \<open>Y\<close>, \<open>X\<close> below \<open>H\<close>, so that \<open>X\<close> does not properly post-dominate
  \<open>H\<close> and \<open>H\<close> and \<open>X\<close> have a nearest common post-dominator), the builder finishes, from
  any map, and \<open>H\<close> is in the dependent-set of \<open>H\<close>.
\<close>

theorem loop_header_self_dependent:
  assumes "getNode PDT Y = Some (DomTreeNode Y None)"
    and "getNode PDT H = Some (DomTreeNode H (Some (DomTreeNode Y None)))"
    and "getNode PDT X =
           Some (DomTreeNode X (Some (DomTreeNode H (Some (DomTreeNode Y None)))))"
    and "\<not> properlyDominates PDT X H"
    and "findNearestCommonDominator PDT H X \<noteq> NULL"
  shows "\<exists>controlDeps' s.
           getControlDependencies [(H, [X, Y]), (X, [H]), (Y, [])] PDT controlDeps
             = Inr controlDeps' \<and>
           controlDeps' H = Some s \<and> H \<in> s"
proof -
  let ?F = "[(H, [X, Y]), (X, [H]), (Y, [])]"
  let ?S = "getNonPDomEdges ?F PDT"
  have e1: "edge_effect PDT \<lparr>tail = H, head = X\<rparr> = Inr (Some {X, H})"
    using assms by (simp add: edge_effect_def reaches_def visited_def)
  have e2: "\<exists>v. edge_effect PDT \<lparr>tail = H, head = Y\<rparr> = Inr v"
    using assms by (simp add: edge_effect_def reaches_def)
  have e3: "\<exists>v. edge_effect PDT \<lparr>tail = X, head = H\<rparr> = Inr v"
    using assms by (simp add: edge_effect_def reaches_def)
  have sub: "set ?S \<subseteq> {\<lparr>tail = H, head = X\<rparr>, \<lparr>tail = H, head = Y\<rparr>, \<lparr>tail = X, head = H\<rparr>}"
    unfolding getNonPDomEdges_set by auto
  have mem: "\<lparr>tail = H, head = X\<rparr> \<in> set ?S"
    unfolding getNonPDomEdges_set using assms(4) by auto
  have "\<forall>e \<in> set ?S. \<exists>v. edge_effect PDT e = Inr v"
    using sub e1 e2 e3 by auto
  from updateControlDependencies_total [OF this] obtain controlDeps' where
    run: "updateControlDependencies ?S PDT controlDeps = Inr controlDeps'"
    by blast
  from updateControlDependencies_absorbs [OF run] mem
  have "absorbs controlDeps' PDT \<lparr>tail = H, head = X\<rparr>"
    by blast
  with e1 obtain s where "controlDeps' H = Some s" and "{X, H} \<subseteq> s"
    by (auto simp: absorbs_def)
  with run show ?thesis
    by (auto simp: getControlDependencies_def)
qed

text \<open>
  Claim C2 at the loop of the example, from the empty map.
\<close>

theorem loop_header_self_dependent_witness:
  "getNode loop_PDT blk_Y = Some (DomTreeNode blk_Y None) \<and>
   getNode loop_PDT blk_H = Some (DomTreeNode blk_H (Some (DomTreeNode blk_Y None))) \<and>
   getNode loop_PDT blk_X =
     Some (DomTreeNode blk_X (Some (DomTreeNode blk_H (Some (DomTreeNode blk_Y None))))) \<and>
   \<not> properlyDominates loop_PDT blk_X blk_H \<and>
   findNearestCommonDominator loop_PDT blk_H blk_X \<noteq> NULL \<and>
   (\<exists>controlDeps' s.
      getControlDependencies [(blk_H, [blk_X, blk_Y]), (blk_X, [blk_H]), (blk_Y, [])] loop_PDT
        Map.empty = Inr controlDeps' \<and>
      controlDeps' blk_H = Some s \<and> blk_H \<in> s)"
proof -
  have h1: "getNode loop_PDT blk_Y = Some (DomTreeNode blk_Y None)"
    by (simp add: loop_defs)
  have h2: "getNode loop_PDT blk_H = Some (DomTreeNode blk_H (Some (DomTreeNode blk_Y None)))"
    by (simp add: loop_defs)
  have h3: "getNode loop_PDT blk_X =
     Some (DomTreeNode blk_X (Some (DomTreeNode blk_H (Some (DomTreeNode blk_Y None)))))"
    by (simp add: loop_defs)
  have h4: "\<not> properlyDominates loop_PDT blk_X blk_H"
    by (simp add: loop_defs)
  have h5: "findNearestCommonDominator loop_PDT blk_H blk_X \<noteq> NULL"
    by (simp add: loop_defs)
  from loop_header_self_dependent [OF h1 h2 h3 h4 h5, of Map.empty] h1 h2 h3 h4 h5
  show ?thesis by blast
qed



text \<open>
  Claim C8: when the builder finishes, every key of the map has a non-empty
  dependent-set, provided the keys it started with had one. The post-dominator tree is
  taken to be one of the function: a block at the root of the tree has no successor, and
  when the node of a successor \<open>B\<close> of \<open>A\<close> is the parent of the node of \<open>A\<close>, \<open>B\<close>
  properly post-dominates \<open>A\<close>.
\<close>

theorem keys_have_dependents:
  assumes "getControlDependencies F PDT controlDeps = Inr controlDeps'"
    and "no_empty_set controlDeps"
    and "root_is_exit F PDT"
    and "idom_properly_dominates F PDT"
    and "controlDeps' A = Some s"
  shows "s \<noteq> {}"
proof -
  have "\<forall>e \<in> set (getNonPDomEdges F PDT). \<forall>domNodeA.
          getNode PDT (tail e) = Some domNodeA \<longrightarrow> getNode PDT (head e) \<noteq> getIDom domNodeA"
    using selected_edge_progress [OF assms(3,4)] by blast
  with assms(1,2) have "no_empty_set controlDeps'"
    unfolding getControlDependencies_def Let_def
    by (rule updateControlDependencies_no_empty_set)
  with assms(5) show ?thesis
    by (auto simp: no_empty_set_def)
qed

text \<open>
  Claim C8 at the loop of the example, from the empty map.
\<close>

theorem keys_have_dependents_witness:
  "getControlDependencies loop_CFG loop_PDT Map.empty = Inr [blk_H \<mapsto> {blk_H, blk_X}] \<and>
   no_empty_set Map.empty \<and>
   root_is_exit loop_CFG loop_PDT \<and>
   idom_properly_dominates loop_CFG loop_PDT \<and>
   [blk_H \<mapsto> {blk_H, blk_X}] blk_H = Some {blk_H, blk_X} \<and>
   {blk_H, blk_X} \<noteq> {}"
proof -
  have h2: "no_empty_set Map.empty"
    by (simp add: no_empty_set_def)
  have h3: "root_is_exit loop_CFG loop_PDT"
    by (simp add: root_is_exit_def loop_defs)
  have h4: "idom_properly_dominates loop_CFG loop_PDT"
    by (simp add: idom_properly_dominates_def loop_defs)
  have h5: "[blk_H \<mapsto> {blk_H, blk_X}] blk_H = Some {blk_H, blk_X}"
    by simp
  from keys_have_dependents [OF loop_run h2 h3 h4 h5] loop_run h2 h3 h4 h5
  show ?thesis by blast
qed

text \<open>
  Claim C9: when a run of the builder finishes, a second run on the same function and the
  same post-dominator tree, started from the map the first run left, finishes with that
  same map.
\<close>

theorem builder_idempotent:
  assumes "getControlDependencies F PDT controlDeps = Inr controlDeps'"
  shows "getControlDependencies F PDT controlDeps' = Inr controlDeps'"
proof -
  from assms have "\<forall>e \<in> set (getNonPDomEdges F PDT). absorbs controlDeps' PDT e"
    unfolding getControlDependencies_def Let_def
    by (rule updateControlDependencies_absorbs [THEN conjunct1])
  then show ?thesis
    unfolding getControlDependencies_def Let_def
    by (rule updateControlDependencies_fixed)
qed

text \<open>
  Claim C9 at the loop of the example.
\<close>

theorem builder_idempotent_witness:
  "getControlDependencies loop_CFG loop_PDT Map.empty = Inr [blk_H \<mapsto> {blk_H, blk_X}] \<and>
   getControlDependencies loop_CFG loop_PDT [blk_H \<mapsto> {blk_H, blk_X}]
     = Inr [blk_H \<mapsto> {blk_H, blk_X}]"
  using builder_idempotent [OF loop_run] loop_run by blast

end
